theory Spec2Isabelle
  imports Main "HOL-Library.Word" "HOL-Library.Sublist"
begin

section \<open>Go values shared by both packages\<close>

type_synonym byte = "8 word"

text \<open>The status codes of google.golang.org/grpc/codes, in their numeric order.\<close>

datatype codes =
    OK | Canceled | Unknown | InvalidArgument | DeadlineExceeded | NotFound
  | AlreadyExists | PermissionDenied | ResourceExhausted | FailedPrecondition
  | Aborted | OutOfRange | Unimplemented | Internal | Unavailable | DataLoss
  | Unauthenticated

text \<open>
  The error values the two source files produce or pass on. \<open>StatusError\<close> is an error
  carrying a gRPC status, \<open>NetError\<close> is a \<open>net.Error\<close> with its \<open>Temporary()\<close> answer,
  \<open>OtherError\<close> is any other error, \<open>Wrapped\<close> is an error that wraps another one
  with a message (as \<open>fmt.Errorf\<close> with \<open>%w\<close> makes). \<open>ConnectError\<close>, \<open>AuthError\<close>,
  \<open>DialError\<close> and \<open>ClosedError\<close> are the error structs of \<open>protocol/hysteria2/errors\<close>;
  \<open>ConnectError\<close> and \<open>ClosedError\<close> wrap the error in their \<open>Err\<close> field. A Go
  \<open>error\<close> that may be nil is a \<open>go_error option\<close>.
\<close>

datatype go_error =
    ErrDeadlineExceeded
  | EOF
  | StatusError codes string
  | NetError bool string
  | OtherError string
  | ConnectError go_error
  | AuthError int
  | DialError string
  | ClosedError go_error
  | Wrapped string go_error

text \<open>
  \<open>status.Code(err)\<close> of the gRPC library: \<open>codes.OK\<close> for a nil error; otherwise the
  code of the status that \<open>err\<close> carries, or that the first error in its chain of wrapped
  errors carries (the library looks through the chain with \<open>errors.As\<close>), and
  \<open>codes.Unknown\<close> when no error in the chain carries a status.
\<close>

fun error_Code :: "go_error \<Rightarrow> codes" where
  "error_Code (StatusError c m) = c"
| "error_Code (ConnectError err) = error_Code err"
| "error_Code (ClosedError err) = error_Code err"
| "error_Code (Wrapped m err) = error_Code err"
| "error_Code ErrDeadlineExceeded = Unknown"
| "error_Code EOF = Unknown"
| "error_Code (NetError temporary m) = Unknown"
| "error_Code (OtherError m) = Unknown"
| "error_Code (AuthError StatusCode) = Unknown"
| "error_Code (DialError m) = Unknown"

fun status_Code :: "go_error option \<Rightarrow> codes" where
  "status_Code None = OK"
| "status_Code (Some err) = error_Code err"

text \<open>
  Go's builtin \<open>copy(dst, src)\<close>: overwrites the first \<open>min (len dst) (len src)\<close> elements
  of \<open>dst\<close> and returns that count.
\<close>

definition copy_go :: "'a list \<Rightarrow> 'a list \<Rightarrow> 'a list \<times> nat" where
  "copy_go dst src =
     (let n = min (length dst) (length src) in (take n src @ drop n dst, n))"

text \<open>
  A \<open>select\<close> statement: each case is listed with whether its channel is ready. Among
  the ready cases Go chooses one at random, here by the scheduler's number \<open>pick\<close>;
  \<open>None\<close> when no case is ready (the \<open>default\<close> branch, or a blocked caller).
\<close>

definition select_go :: "nat \<Rightarrow> (bool \<times> 'a) list \<Rightarrow> 'a option" where
  "select_go pick cases =
     (let ready = map snd (filter fst cases)
      in if ready = [] then None else Some (ready ! (pick mod length ready)))"

section \<open>transport/grpc/grpc\_server.go\<close>

subsection \<open>Times, timers and cancellation scopes\<close>

text \<open>
  A \<open>time.Time\<close> is an instant in nanoseconds counted from the zero time value
  (January 1, year 1). \<open>t.Sub(u)\<close> is a \<open>time.Duration\<close>, an int64 that saturates.
\<close>

type_synonym time = int

definition zero_time :: time where
  "zero_time = 0"

definition time_After :: "time \<Rightarrow> time \<Rightarrow> bool" where
  "time_After t u = (u < t)"

definition time_Sub :: "time \<Rightarrow> time \<Rightarrow> int" where
  "time_Sub t u = max (- (2 ^ 63)) (min (2 ^ 63 - 1) (t - u))"

text \<open>A \<open>*time.Timer\<close> made by \<open>time.AfterFunc\<close>: when it is due and whether it can still fire.\<close>

datatype timer = Timer (fires_at: time) (active: bool)

fun timer_Stop :: "timer \<Rightarrow> timer" where
  "timer_Stop (Timer t a) = Timer t False"

text \<open>
  The connection. A \<open>context.Context\<close> made by \<open>context.WithCancel\<close> is an object of
  its own: \<open>ctxs\<close> is the store of all contexts created so far (the entry is True once
  the context is cancelled, that is once \<open>Done()\<close> is closed), and \<open>ctxRead\<close>,
  \<open>ctxWrite\<close> and \<open>ctx\<close> are references into it. \<open>cancelRead\<close>, \<open>cancelWrite\<close> and
  \<open>cancel\<close> are always the cancel functions of the contexts those fields refer to.
  The stream \<open>tun\<close> is seen through \<open>recvs\<close>, the number of \<open>tun.Recv\<close> calls started,
  and \<open>sends\<close>, the hunks handed to \<open>tun.Send\<close>. The mutexes serialise callers and are
  not state of the model.
\<close>

record ServerConn =
  buf :: "byte list option"
  offset :: nat
  readDeadline :: "timer option"
  writeDeadline :: "timer option"
  ctxRead :: nat
  ctxWrite :: nat
  ctx :: nat
  ctxs :: "bool list"
  recvs :: nat
  sends :: "byte list list"

definition NewServerConn :: ServerConn where
  "NewServerConn =
     \<lparr> buf = None, offset = 0, readDeadline = None, writeDeadline = None,
       ctxRead = 1, ctxWrite = 2, ctx = 0, ctxs = [False, False, False],
       recvs = 0, sends = [] \<rparr>"

text \<open>\<open><-x.Done()\<close> is ready exactly when context \<open>x\<close> has been cancelled.\<close>

definition Done :: "ServerConn \<Rightarrow> nat \<Rightarrow> bool" where
  "Done c x = (x < length (ctxs c) \<and> ctxs c ! x)"

definition cancel_ctx :: "nat \<Rightarrow> ServerConn \<Rightarrow> ServerConn" where
  "cancel_ctx x c = c\<lparr>ctxs := (ctxs c)[x := True]\<rparr>"

text \<open>
  \<open>select { case <-c.ctxRead.Done(): c.ctxRead, c.cancelRead = context.WithCancel(...) default: }\<close>
\<close>

definition refresh_read :: "ServerConn \<Rightarrow> ServerConn" where
  "refresh_read c =
     (if Done c (ctxRead c)
      then c\<lparr>ctxRead := length (ctxs c), ctxs := ctxs c @ [False]\<rparr>
      else c)"

definition refresh_write :: "ServerConn \<Rightarrow> ServerConn" where
  "refresh_write c =
     (if Done c (ctxWrite c)
      then c\<lparr>ctxWrite := length (ctxs c), ctxs := ctxs c @ [False]\<rparr>
      else c)"

text \<open>\<open>select { case <-c.ctxRead.Done(): default: c.cancelRead() }\<close>\<close>

definition trip_read :: "ServerConn \<Rightarrow> ServerConn" where
  "trip_read c = (if Done c (ctxRead c) then c else cancel_ctx (ctxRead c) c)"

definition trip_write :: "ServerConn \<Rightarrow> ServerConn" where
  "trip_write c = (if Done c (ctxWrite c) then c else cancel_ctx (ctxWrite c) c)"

text \<open>
  \<open>if c.readDeadline != nil { c.readDeadline.Stop() }\<close> followed by
  \<open>c.readDeadline = time.AfterFunc(d, ...)\<close>, the new timer being due \<open>d\<close> after \<open>now\<close>.
\<close>

definition rearm_read :: "int \<Rightarrow> time \<Rightarrow> ServerConn \<Rightarrow> ServerConn" where
  "rearm_read d now c =
     (let c1 = c\<lparr>readDeadline := map_option timer_Stop (readDeadline c)\<rparr>
      in c1\<lparr>readDeadline := Some (Timer (now + d) True)\<rparr>)"

definition rearm_write :: "int \<Rightarrow> time \<Rightarrow> ServerConn \<Rightarrow> ServerConn" where
  "rearm_write d now c =
     (let c1 = c\<lparr>writeDeadline := map_option timer_Stop (writeDeadline c)\<rparr>
      in c1\<lparr>writeDeadline := Some (Timer (now + d) True)\<rparr>)"

text \<open>The three setters; \<open>now\<close> is what \<open>time.Now()\<close> returns inside the call.\<close>

definition SetDeadline :: "ServerConn \<Rightarrow> time \<Rightarrow> time \<Rightarrow> ServerConn" where
  "SetDeadline c t now =
     (if time_After t now
      then rearm_write (time_Sub t now) now
             (rearm_read (time_Sub t now) now (refresh_write (refresh_read c)))
      else trip_write (trip_read c))"

definition SetReadDeadline :: "ServerConn \<Rightarrow> time \<Rightarrow> time \<Rightarrow> ServerConn" where
  "SetReadDeadline c t now =
     (if time_After t now
      then rearm_read (time_Sub t now) now (refresh_read c)
      else trip_read c)"

definition SetWriteDeadline :: "ServerConn \<Rightarrow> time \<Rightarrow> time \<Rightarrow> ServerConn" where
  "SetWriteDeadline c t now =
     (if time_After t now
      then rearm_write (time_Sub t now) now (refresh_write c)
      else trip_write c)"

definition Close :: "ServerConn \<Rightarrow> ServerConn" where
  "Close c = (if Done c (ctx c) then c else cancel_ctx (ctx c) c)"

text \<open>
  The callbacks given to \<open>time.AfterFunc\<close>. They read \<open>c.ctxRead\<close> and \<open>c.cancelRead\<close>
  when they run, so a timer trips the scope that is current at that moment.
  \<open>clock now\<close> lets time pass up to \<open>now\<close>: every timer that is due and was not stopped
  runs its callback once.
\<close>

definition fire_read :: "ServerConn \<Rightarrow> ServerConn" where
  "fire_read c =
     (case readDeadline c of
        Some (Timer t True) \<Rightarrow> trip_read (c\<lparr>readDeadline := Some (Timer t False)\<rparr>)
      | _ \<Rightarrow> c)"

definition fire_write :: "ServerConn \<Rightarrow> ServerConn" where
  "fire_write c =
     (case writeDeadline c of
        Some (Timer t True) \<Rightarrow> trip_write (c\<lparr>writeDeadline := Some (Timer t False)\<rparr>)
      | _ \<Rightarrow> c)"

definition due :: "timer option \<Rightarrow> time \<Rightarrow> bool" where
  "due tm now = (case tm of Some (Timer t a) \<Rightarrow> a \<and> t \<le> now | None \<Rightarrow> False)"

definition clock :: "time \<Rightarrow> ServerConn \<Rightarrow> ServerConn" where
  "clock now c =
     (let c1 = (if due (readDeadline c) now then fire_read c else c)
      in if due (writeDeadline c1) now then fire_write c1 else c1)"

text \<open>
  What other goroutines can do to the connection while a caller is blocked in \<open>Read\<close> or
  \<open>Write\<close>: close it, set deadlines, or let time pass.
\<close>

datatype op =
    OpClose
  | OpSetDeadline time time
  | OpSetReadDeadline time time
  | OpSetWriteDeadline time time
  | OpClock time

fun run_op :: "op \<Rightarrow> ServerConn \<Rightarrow> ServerConn" where
  "run_op OpClose c = Close c"
| "run_op (OpSetDeadline t now) c = SetDeadline c t now"
| "run_op (OpSetReadDeadline t now) c = SetReadDeadline c t now"
| "run_op (OpSetWriteDeadline t now) c = SetWriteDeadline c t now"
| "run_op (OpClock now) c = clock now c"

fun run_ops :: "op list \<Rightarrow> ServerConn \<Rightarrow> ServerConn" where
  "run_ops [] c = c"
| "run_ops (x # xs) c = run_ops xs (run_op x c)"

subsection \<open>The buffer pool\<close>

text \<open>
  Modelled from the spec: the allocator \<open>pool.Get\<close> and \<open>pool.Put\<close> (package \<open>pool\<close> of
  this repository is not among the sources). The spec gives it as \<open>acquire(size) -> buffer\<close>,
  for which "a simple allocation" may be substituted, and has the leftover buffer "freshly
  allocated to the exact remaining size": \<open>pool.Get size\<close> is a non-nil slice of exactly
  \<open>size\<close> bytes, also when \<open>size\<close> is 0. Its contents are whatever the recycled storage
  held (\<open>stale\<close>). \<open>pool.Put\<close> gives storage back and changes nothing the connection sees.
\<close>

definition pool_Get :: "byte list \<Rightarrow> nat \<Rightarrow> byte list option" where
  "pool_Get stale n = Some (take n (stale @ replicate n 0))"

subsection \<open>Read and Write\<close>

text \<open>The pair \<open>(hunk, err)\<close> that \<open>tun.Recv()\<close> returns: the hunk's \<open>Data\<close>, or an error.\<close>

datatype recv_result = RecvOk "byte list" | RecvErr go_error

text \<open>
  What surrounds one call: \<open>pick0\<close> and \<open>pick1\<close> resolve the two \<open>select\<close> statements
  when several cases are ready; \<open>during\<close> is what other goroutines do to the connection
  while the caller waits in the second \<open>select\<close>; \<open>recv\<close> is the outcome of the call's
  own \<open>tun.Recv()\<close> (\<open>send\<close> of its own \<open>tun.Send\<close>), None when the transport call has
  not returned; \<open>junk\<close> is the stale content of pooled storage.
\<close>

record read_env =
  pick0 :: nat
  pick1 :: nat
  during :: "op list"
  recv :: "recv_result option"
  junk :: "byte list"

record write_env =
  wpick0 :: nat
  wpick1 :: nat
  wduring :: "op list"
  send :: "go_error option option"

datatype 'a race = ScopeDone | CloseDone | Completed 'a

text \<open>The status translation both paths apply to the transport's error.\<close>

definition translate :: "go_error option \<Rightarrow> go_error option" where
  "translate err =
     (if status_Code err = Unavailable \<or> status_Code err = OutOfRange then Some EOF else err)"

text \<open>
  A call returns \<open>(p', n, err)\<close>, the caller's buffer after the call, the count and the
  error, with the connection after the call; None when the caller stays blocked.
\<close>

type_synonym io_result = "byte list \<times> nat \<times> go_error option"

text \<open>The first \<open>select\<close> of \<open>Read\<close>, with its \<open>default\<close> branch (None: go on).\<close>

definition Read_failfast :: "nat \<Rightarrow> ServerConn \<Rightarrow> go_error option" where
  "Read_failfast pick c =
     select_go pick [(Done c (ctxRead c), ErrDeadlineExceeded), (Done c (ctx c), EOF)]"

text \<open>
  From \<open>readDone := make(chan RecvResp, 1)\<close> on: the goroutine calls \<open>tun.Recv()\<close>, and
  the caller waits for the first of the read scope, the close scope and \<open>readDone\<close>. The
  channels \<open>c.ctxRead.Done()\<close> and \<open>c.ctx.Done()\<close> are those of the contexts the fields
  refer to when the \<open>select\<close> is entered.
\<close>

definition Read_recv :: "read_env \<Rightarrow> ServerConn \<Rightarrow> byte list \<Rightarrow> (io_result \<times> ServerConn) option" where
  "Read_recv e c p =
     (let rd = ctxRead c; cl = ctx c;
          c1 = run_ops (during e) (c\<lparr>recvs := recvs c + 1\<rparr>)
      in case select_go (pick1 e)
                ([(Done c1 rd, ScopeDone), (Done c1 cl, CloseDone)] @
                 (case recv e of None \<Rightarrow> [] | Some r \<Rightarrow> [(True, Completed r)])) of
           None \<Rightarrow> None
         | Some ScopeDone \<Rightarrow> Some ((p, 0, Some ErrDeadlineExceeded), c1)
         | Some CloseDone \<Rightarrow> Some ((p, 0, Some EOF), c1)
         | Some (Completed (RecvErr err)) \<Rightarrow> Some ((p, 0, translate (Some err)), c1)
         | Some (Completed (RecvOk data)) \<Rightarrow>
             (let (p', n) = copy_go p data;
                  b = pool_Get (junk e) (length data - n);
                  b' = map_option (\<lambda>dst. fst (copy_go dst (drop n data))) b
              in Some ((p', n, None), c1\<lparr>buf := b', offset := 0\<rparr>)))"

definition Read :: "read_env \<Rightarrow> ServerConn \<Rightarrow> byte list \<Rightarrow> (io_result \<times> ServerConn) option" where
  "Read e c p =
     (case Read_failfast (pick0 e) c of
        Some err \<Rightarrow> Some ((p, 0, Some err), c)
      | None \<Rightarrow>
          (case buf c of
             Some b \<Rightarrow>
               (let (p', n) = copy_go p (drop (offset c) b);
                    c1 = c\<lparr>offset := offset c + n\<rparr>;
                    c2 = (if offset c1 = length b then c1\<lparr>buf := None\<rparr> else c1)
                in Some ((p', n, None), c2))
           | None \<Rightarrow> Read_recv e c p))"

definition Write_failfast :: "nat \<Rightarrow> ServerConn \<Rightarrow> go_error option" where
  "Write_failfast pick c =
     select_go pick [(Done c (ctxWrite c), ErrDeadlineExceeded), (Done c (ctx c), EOF)]"

text \<open>\<open>Write\<close> leaves the caller's buffer as it is, so it returns the count and the error.\<close>

definition Write :: "write_env \<Rightarrow> ServerConn \<Rightarrow> byte list \<Rightarrow> ((nat \<times> go_error option) \<times> ServerConn) option" where
  "Write e c p =
     (case Write_failfast (wpick0 e) c of
        Some err \<Rightarrow> Some ((0, Some err), c)
      | None \<Rightarrow>
          (let wr = ctxWrite c; cl = ctx c;
               c1 = run_ops (wduring e) (c\<lparr>sends := sends c @ [p]\<rparr>)
           in case select_go (wpick1 e)
                     ([(Done c1 wr, ScopeDone), (Done c1 cl, CloseDone)] @
                      (case send e of None \<Rightarrow> [] | Some r \<Rightarrow> [(True, Completed r)])) of
                None \<Rightarrow> None
              | Some ScopeDone \<Rightarrow> Some ((0, Some ErrDeadlineExceeded), c1)
              | Some CloseDone \<Rightarrow> Some ((0, Some EOF), c1)
              | Some (Completed err) \<Rightarrow> Some ((length p, translate err), c1)))"

text \<open>Successive \<open>Read\<close> calls by one caller, each with its own buffer and surroundings.\<close>

fun Reads :: "(read_env \<times> byte list) list \<Rightarrow> ServerConn \<Rightarrow> (io_result list \<times> ServerConn) option" where
  "Reads [] c = Some ([], c)"
| "Reads ((e, p) # rest) c =
     (case Read e c p of
        None \<Rightarrow> None
      | Some (r, c') \<Rightarrow>
          (case Reads rest c' of
             None \<Rightarrow> None
           | Some (rs, c'') \<Rightarrow> Some (r # rs, c'')))"

text \<open>The bytes a call delivered: the first \<open>n\<close> bytes of the caller's buffer.\<close>

fun delivered :: "io_result \<Rightarrow> byte list" where
  "delivered (p, n, err) = take n p"

subsection \<open>Well-formed connections\<close>

text \<open>
  The three scopes of a connection are three different contexts, each in the store.
  \<open>NewServerConn\<close> makes them so and every operation keeps them so.
\<close>

definition wf_conn :: "ServerConn \<Rightarrow> bool" where
  "wf_conn c =
     (ctxRead c < length (ctxs c) \<and> ctxWrite c < length (ctxs c) \<and> ctx c < length (ctxs c)
      \<and> ctxRead c \<noteq> ctxWrite c \<and> ctxRead c \<noteq> ctx c \<and> ctxWrite c \<noteq> ctx c)"

text \<open>
  \<open>Read\<close> slices \<open>c.buf[c.offset:]\<close>, which Go allows only while the offset is at
  most the length of the buffer. That holds whenever a leftover buffer is set.
\<close>

definition offset_ok :: "ServerConn \<Rightarrow> bool" where
  "offset_ok c = (case buf c of None \<Rightarrow> True | Some b \<Rightarrow> offset c \<le> length b)"

section \<open>protocol/hysteria2/client/client.go\<close>

subsection \<open>connect: the handshake and the choice of congestion control\<close>

definition closeErrCodeOK :: int where
  "closeErrCodeOK = 0x100"

definition closeErrCodeProtocolError :: int where
  "closeErrCodeProtocolError = 0x101"

text \<open>The fields of \<open>Config\<close> that \<open>connect\<close> and \<open>TCP\<close> branch on.\<close>

record Config =
  MaxTx :: "64 word"
  MaxRx :: "64 word"
  FastOpen :: bool

record HandshakeInfo =
  UDPEnabled :: bool
  Tx :: "64 word"

text \<open>
  \<open>protocol.AuthResponse\<close> as \<open>protocol.AuthResponseFromHeader\<close> returns it (the parsing
  of the headers is not in this file; \<open>connect\<close> reads these three fields).
\<close>

record AuthResponse =
  auth_UDPEnabled :: bool
  auth_Rx :: "64 word"
  auth_RxAuto :: bool

text \<open>The strategy installed on the connection: \<open>congestion.UseBBR\<close> or \<open>congestion.UseBrutal\<close>.\<close>

datatype congestion = BBR | Brutal "64 word"

text \<open>
  What \<open>connect\<close> meets: the error of \<open>ConnFactory.New\<close>, the error of
  \<open>http.NewRequestWithContext\<close>, whether the \<open>Dial\<close> hook had set \<open>conn\<close> when
  \<open>RoundTrip\<close> returned, and what \<open>RoundTrip\<close> returned: an error, or a response with
  its status code and its auth headers.
\<close>

record connect_env =
  factory_err :: "go_error option"
  request_err :: "go_error option"
  dialed :: bool
  roundtrip :: "go_error + (int \<times> AuthResponse)"

text \<open>
  What \<open>connect\<close> leaves behind: the close code given to \<open>conn.CloseWithError\<close>,
  whether \<open>pktConn\<close> was closed, the congestion control in use, and whether the UDP
  session manager \<open>udpSM\<close> was made.
\<close>

record clientImpl =
  conn_closed :: "int option"
  pktConn_closed :: bool
  cc :: "congestion option"
  udpSM :: bool

definition new_clientImpl :: clientImpl where
  "new_clientImpl = \<lparr> conn_closed = None, pktConn_closed = False, cc = None, udpSM = False \<rparr>"

text \<open>
  \<open>StatusAuthOK\<close> is the constant \<open>protocol.StatusAuthOK\<close>, declared outside this file
  and taken as a parameter.
\<close>

definition connect :: "int \<Rightarrow> Config \<Rightarrow> connect_env \<Rightarrow> (go_error + HandshakeInfo) \<times> clientImpl" where
  "connect StatusAuthOK config env =
     (case factory_err env of
        Some err \<Rightarrow> (Inl err, new_clientImpl)
      | None \<Rightarrow>
     (case request_err env of
        Some err \<Rightarrow> (Inl err, new_clientImpl)
      | None \<Rightarrow>
     (case roundtrip env of
        Inl err \<Rightarrow>
          (Inl (ConnectError err),
           new_clientImpl\<lparr>conn_closed := (if dialed env then Some closeErrCodeProtocolError else None),
                          pktConn_closed := True\<rparr>)
      | Inr (StatusCode, authResp) \<Rightarrow>
          if StatusCode \<noteq> StatusAuthOK
          then (Inl (AuthError StatusCode),
                new_clientImpl\<lparr>conn_closed := Some closeErrCodeProtocolError, pktConn_closed := True\<rparr>)
          else
            (let (actualTx, use) =
                   (if auth_RxAuto authResp then (0, BBR)
                    else
                      (let actualTx = auth_Rx authResp;
                           actualTx = (if actualTx = 0 \<or> actualTx > MaxTx config
                                       then MaxTx config else actualTx)
                       in if actualTx > 0 then (actualTx, Brutal actualTx) else (actualTx, BBR)))
             in (Inr \<lparr>UDPEnabled = auth_UDPEnabled authResp, Tx = actualTx\<rparr>,
                 new_clientImpl\<lparr>cc := Some use, udpSM := auth_UDPEnabled authResp\<rparr>)))))"

subsection \<open>TCP and tcpConn.Read\<close>

text \<open>
  A \<open>utils.QStream\<close>: the request written to it, whether \<open>Close\<close> was called on it, and
  the reply the server sends on it.

  Modelled from the spec: \<open>protocol.ReadTCPResponse\<close> (package \<open>internal/protocol\<close> is
  not among the sources). The server "writes back a success/failure flag plus an optional
  message string"; reading it yields \<open>(ok, msg, err)\<close>, taken here as given in \<open>reply\<close>.
\<close>

record QStream =
  request :: "string option"
  closed :: bool
  reply :: "bool \<times> string \<times> go_error option"

definition ReadTCPResponse :: "QStream \<Rightarrow> bool \<times> string \<times> go_error option" where
  "ReadTCPResponse stream = reply stream"

definition QStream_Close :: "QStream \<Rightarrow> QStream" where
  "QStream_Close stream = stream\<lparr>closed := True\<rparr>"

record tcpConn =
  Orig :: QStream
  Established :: bool

definition wrapIfConnectionClosed :: "go_error \<Rightarrow> go_error" where
  "wrapIfConnectionClosed err =
     (case err of
        NetError temporary m \<Rightarrow> if \<not> temporary then ClosedError err else err
      | _ \<Rightarrow> ClosedError err)"

text \<open>
  What \<open>TCP\<close> meets: the error of \<open>c.conn.OpenStream()\<close>, the error of
  \<open>protocol.WriteTCPRequest\<close>, and the server's reply on the new stream. It returns
  its result and the stream it opened, if any.
\<close>

record tcp_env =
  open_err :: "go_error option"
  write_err :: "go_error option"
  server_reply :: "bool \<times> string \<times> go_error option"

definition TCP :: "Config \<Rightarrow> tcp_env \<Rightarrow> string \<Rightarrow> (go_error + tcpConn) \<times> QStream option" where
  "TCP config env addr =
     (case open_err env of
        Some err \<Rightarrow> (Inl (wrapIfConnectionClosed err), None)
      | None \<Rightarrow>
     (let stream = \<lparr>request = None, closed = False, reply = server_reply env\<rparr>
      in case write_err env of
           Some err \<Rightarrow> (Inl (wrapIfConnectionClosed err), Some (QStream_Close stream))
         | None \<Rightarrow>
     (let stream = stream\<lparr>request := Some addr\<rparr>
      in if FastOpen config
         then (Inr \<lparr>Orig = stream, Established = False\<rparr>, Some stream)
         else
           (case ReadTCPResponse stream of
              (ok, msg, Some err) \<Rightarrow> (Inl (wrapIfConnectionClosed err), Some (QStream_Close stream))
            | (ok, msg, None) \<Rightarrow>
                if \<not> ok
                then (Inl (DialError (''from remote: '' @ msg)), Some (QStream_Close stream))
                else (Inr \<lparr>Orig = stream, Established = True\<rparr>, Some stream)))))"

text \<open>
  \<open>tcpConn.Read\<close>; \<open>orig_Read\<close> is \<open>c.Orig.Read\<close>, the read of the underlying stream.
\<close>

definition tcpConn_Read ::
  "(QStream \<Rightarrow> byte list \<Rightarrow> io_result \<times> QStream) \<Rightarrow> tcpConn \<Rightarrow> byte list \<Rightarrow> io_result \<times> tcpConn" where
  "tcpConn_Read orig_Read c b =
     (if \<not> Established c
      then
        (case ReadTCPResponse (Orig c) of
           (ok, msg, Some err) \<Rightarrow> ((b, 0, Some err), c)
         | (ok, msg, None) \<Rightarrow>
             if \<not> ok then ((b, 0, Some (DialError msg)), c)
             else
               (let c1 = c\<lparr>Established := True\<rparr>;
                    (r, s) = orig_Read (Orig c1) b
                in (r, c1\<lparr>Orig := s\<rparr>)))
      else
        (let (r, s) = orig_Read (Orig c) b in (r, c\<lparr>Orig := s\<rparr>)))"

subsection \<open>udpIOImpl.ReceiveMessage\<close>

text \<open>
  What successive \<open>io.Conn.ReceiveDatagram\<close> calls return: a datagram or a connection
  error. \<open>ParseUDPMessage\<close> is \<open>protocol.ParseUDPMessage\<close>, taken as a parameter. Each
  turn of the loop takes the next outcome; when none is left the caller stays blocked in
  \<open>ReceiveDatagram\<close> (None). The call returns its result and the outcomes not yet taken.
\<close>

datatype received = Datagram "byte list" | ConnErr go_error

fun ReceiveMessage ::
  "(byte list \<Rightarrow> go_error + 'm) \<Rightarrow> received list \<Rightarrow> ((go_error + 'm) \<times> received list) option" where
  "ReceiveMessage ParseUDPMessage [] = None"
| "ReceiveMessage ParseUDPMessage (ConnErr err # rest) = Some (Inl err, rest)"
| "ReceiveMessage ParseUDPMessage (Datagram msg # rest) =
     (case ParseUDPMessage msg of
        Inl err \<Rightarrow> ReceiveMessage ParseUDPMessage rest
      | Inr udpMsg \<Rightarrow> Some (Inr udpMsg, rest))"

subsection \<open>Named inputs\<close>

text \<open>
  The handshake that succeeds: the factory and the request are made without error and
  \<open>RoundTrip\<close> returns a response with status \<open>StatusAuthOK\<close> and the headers \<open>authResp\<close>.
\<close>

definition auth_ok :: "int \<Rightarrow> bool \<Rightarrow> AuthResponse \<Rightarrow> connect_env" where
  "auth_ok StatusAuthOK d authResp =
     \<lparr>factory_err = None, request_err = None, dialed = d, roundtrip = Inr (StatusAuthOK, authResp)\<rparr>"

text \<open>
  The server rejects a TCP request: the stream opens, the request is written, and the
  reply is the failure flag with the message \<open>msg\<close>.
\<close>

definition rejected :: "string \<Rightarrow> tcp_env" where
  "rejected msg = \<lparr>open_err = None, write_err = None, server_reply = (False, msg, None)\<rparr>"

text \<open>A datagram is malformed when \<open>ParseUDPMessage\<close> returns an error for it.\<close>

definition malformed :: "(byte list \<Rightarrow> go_error + 'm) \<Rightarrow> byte list \<Rightarrow> bool" where
  "malformed ParseUDPMessage msg = (case ParseUDPMessage msg of Inl err \<Rightarrow> True | Inr m \<Rightarrow> False)"

subsection \<open>The congestion decision table in the spec's words\<close>

text \<open>
  "Effective transmit rate = server's declared receive ceiling if nonzero and below the
  client's configured transmit ceiling, else the client's configured transmit ceiling."
\<close>

definition effective_rate_spec :: "64 word \<Rightarrow> 64 word \<Rightarrow> 64 word" where
  "effective_rate_spec serverRx clientTx =
     (if serverRx \<noteq> 0 \<and> serverRx < clientTx then serverRx else clientTx)"

text \<open>
  "Server instructs rate-adaptive: use BBR, ignore local bandwidth config entirely.
  If the effective rate is nonzero: use Brutal at that rate. If the effective rate is
  zero: fall back to BBR." The second component is the negotiated \<open>Tx\<close>.
\<close>

definition congestion_spec :: "bool \<Rightarrow> 64 word \<Rightarrow> 64 word \<Rightarrow> congestion \<times> 64 word" where
  "congestion_spec rateAdaptive serverRx clientTx =
     (if rateAdaptive then (BBR, 0)
      else if effective_rate_spec serverRx clientTx \<noteq> 0
           then (Brutal (effective_rate_spec serverRx clientTx), effective_rate_spec serverRx clientTx)
           else (BBR, 0))"

section \<open>Properties of ServerConn\<close>

subsection \<open>Helper facts\<close>

lemma failfast_live:
  "\<not> Done c (ctxRead c) \<Longrightarrow> \<not> Done c (ctx c) \<Longrightarrow> Read_failfast k c = None"
  by (simp add: Read_failfast_def select_go_def)

lemma Read_leftover:
  assumes "\<not> Done c (ctxRead c)" "\<not> Done c (ctx c)" "buf c = Some b"
  shows "Read e c p =
     Some ((take (min (length p) (length b - offset c)) (drop (offset c) b)
              @ drop (min (length p) (length b - offset c)) p,
            min (length p) (length b - offset c), None),
           (if offset c + min (length p) (length b - offset c) = length b
            then c\<lparr>offset := offset c + min (length p) (length b - offset c), buf := None\<rparr>
            else c\<lparr>offset := offset c + min (length p) (length b - offset c)\<rparr>))"
  using assms by (simp add: Read_def failfast_live copy_go_def Let_def)

lemma ceil_step:
  fixes x B :: nat
  assumes "B < x" "0 < B"
  shows "(x + B - 1) div B = Suc ((x - B + B - 1) div B)"
proof -
  obtain y where x: "x = B + Suc y"
    using assms(1) by (metis less_imp_Suc_add add_Suc_right)
  have l: "x + B - 1 = (y + B) + B" unfolding x by simp
  have r: "x - B + B - 1 = y + B" unfolding x by simp
  have "((y + B) + B) div B = Suc ((y + B) div B)"
    using assms(2) by (simp add: div_add_self2)
  then show ?thesis by (simp only: l r)
qed

lemma ceil_one:
  fixes x B :: nat
  assumes "x \<le> B" "0 < x"
  shows "(x + B - 1) div B = 1"
proof -
  obtain y where x: "x = Suc y" using assms(2) by (cases x) auto
  have e: "x + B - 1 = y + B" unfolding x by simp
  have "y < B" using assms(1) x by simp
  then have "y div B = 0" by simp
  moreover have "(y + B) div B = Suc (y div B)"
    using assms x by (simp add: div_add_self2)
  ultimately have "(y + B) div B = 1" by simp
  then show ?thesis by (simp only: e)
qed

lemma Reads_leftover:
  assumes "0 < B"
  shows "\<not> Done c (ctxRead c) \<Longrightarrow> \<not> Done c (ctx c) \<Longrightarrow> buf c = Some b \<Longrightarrow> offset c < length b
    \<Longrightarrow> \<forall>(e, p) \<in> set calls. length p = B
    \<Longrightarrow> length calls = (length b - offset c + B - 1) div B
    \<Longrightarrow> \<exists>rs c'. Reads calls c = Some (rs, c')
          \<and> map delivered rs = map (\<lambda>i. take B (drop (offset c + i * B) b)) [0..<length calls]
          \<and> (\<forall>r \<in> set rs. snd (snd r) = None)
          \<and> buf c' = None \<and> recvs c' = recvs c"
proof (induction calls arbitrary: c)
  case Nil
  have "0 < (length b - offset c + B - 1) div B"
    using Nil.prems(4) assms by (simp add: div_greater_zero_iff)
  with Nil.prems(6) show ?case by simp
next
  case (Cons call calls)
  obtain e p where call: "call = (e, p)" by (cases call)
  have lp: "length p = B" using Cons.prems(5) call by simp
  let ?x = "length b - offset c"
  have xpos: "0 < ?x" using Cons.prems(4) by simp
  note rd = Read_leftover[OF Cons.prems(1) Cons.prems(2) Cons.prems(3), of e p]
  show ?case
  proof (cases "?x \<le> B")
    case True
    have "(?x + B - 1) div B = 1" using ceil_one[OF True xpos] .
    then have emp: "calls = []" using Cons.prems(6) by simp
    have mn: "min (length p) ?x = ?x" using True lp by simp
    have off: "offset c + ?x = length b" using Cons.prems(4) by simp
    show ?thesis using True Cons.prems(4)
      by (simp add: call emp rd mn off lp)
  next
    case False
    then have big: "B < ?x" by simp
    have mn: "min (length p) ?x = B" using big lp by simp
    let ?c1 = "c\<lparr>offset := offset c + B\<rparr>"
    have ne: "offset c + B \<noteq> length b" using big by simp
    have r1: "Read e c p = Some ((take B (drop (offset c) b) @ drop B p, B, None), ?c1)"
      using rd mn ne by simp
    have d1: "\<not> Done ?c1 (ctxRead ?c1)" "\<not> Done ?c1 (ctx ?c1)"
      using Cons.prems(1,2) by (simp_all add: Done_def)
    have b1: "buf ?c1 = Some b" using Cons.prems(3) by simp
    have o1: "offset ?c1 < length b" using big by simp
    have all1: "\<forall>(e, p) \<in> set calls. length p = B" using Cons.prems(5) by simp
    have x1: "length b - offset ?c1 = ?x - B" by simp
    have "Suc (length calls) = Suc ((?x - B + B - 1) div B)"
      using Cons.prems(6) ceil_step[OF big assms] by simp
    then have len1: "length calls = (length b - offset ?c1 + B - 1) div B"
      by (simp only: x1)
    from Cons.IH[OF d1 b1 o1 all1 len1]
    obtain rs c' where ih: "Reads calls ?c1 = Some (rs, c')"
      "map delivered rs = map (\<lambda>i. take B (drop (offset ?c1 + i * B) b)) [0..<length calls]"
      "\<forall>r \<in> set rs. snd (snd r) = None" "buf c' = None" "recvs c' = recvs ?c1"
      by blast
    have shift: "map (\<lambda>i. take B (drop (offset c + i * B) b)) [0..<Suc (length calls)]
        = take B (drop (offset c) b) # map (\<lambda>i. take B (drop (offset ?c1 + i * B) b)) [0..<length calls]"
      by (simp add: map_upt_Suc add.assoc del: upt_Suc)
    have tk: "take B (take B (drop (offset c) b) @ drop B p) = take B (drop (offset c) b)"
      using big by simp
    show ?thesis
      using ih r1 shift tk by (simp add: call del: upt_Suc)
  qed
qed


lemma Done_recvs: "Done (c\<lparr>recvs := k\<rparr>) x = Done c x"
  by (simp add: Done_def)

lemma Done_sends: "Done (c\<lparr>sends := k\<rparr>) x = Done c x"
  by (simp add: Done_def)

lemma Read_recv_ok:
  assumes "\<not> Done c (ctxRead c)" "\<not> Done c (ctx c)" "buf c = None"
    "recv e = Some (RecvOk m)" "during e = []"
  shows "Read e c p =
     Some ((take (min (length p) (length m)) m @ drop (min (length p) (length m)) p,
            min (length p) (length m), None),
           c\<lparr>recvs := recvs c + 1, buf := Some (drop (min (length p) (length m)) m), offset := 0\<rparr>)"
  using assms
  by (simp add: Read_def failfast_live Read_recv_def select_go_def Done_recvs copy_go_def
      pool_Get_def Let_def)


lemma concat_chunks:
  "concat (map (\<lambda>i. take B (drop (i * B) m)) [0..<N]) = take (N * B) m"
proof (induction N)
  case 0
  show ?case by simp
next
  case (Suc N)
  have "take (N * B) m @ take B (drop (N * B) m) = take (N * B + B) m"
    by (simp add: take_add)
  then show ?case using Suc by (simp add: add.commute)
qed

lemma ceil_covers:
  fixes L B :: nat
  assumes "0 < B" "0 < L"
  shows "L \<le> (L + B - 1) div B * B"
proof -
  have "L + B - 1 < B + (L + B - 1) div B * B"
    using assms(1) by (rule dividend_less_div_times)
  then show ?thesis using assms by arith
qed

lemma below_ceil:
  fixes L B i :: nat
  assumes "i < (L + B - 1) div B" "0 < B"
  shows "i * B < L"
proof -
  have "Suc i * B \<le> (L + B - 1) div B * B" using assms(1) by (simp add: Suc_leI mult_le_mono1 del: mult_Suc)
  also have "\<dots> \<le> L + B - 1" by (rule div_times_less_eq_dividend)
  finally have "i * B + B \<le> L + B - 1" by (simp add: add.commute)
  then show ?thesis using assms(2) by arith
qed

subsection \<open>Partial message buffering\<close>

text \<open>
  C5. A connection has no leftover bytes and live read and close scopes. A caller reads
  with buffers of length \<open>B > 0\<close>, and the transport receive of the first call
  returns a non-empty message \<open>m\<close> while nothing else touches the connection. Then
  \<open>ceil (length m / B)\<close> successive \<open>Read\<close> calls all return without error, call
  number \<open>i\<close> delivers exactly the bytes \<open>i * B ..< i * B + B\<close> of \<open>m\<close> (at least one
  byte, so no fewer calls deliver the message), the delivered bytes in order are \<open>m\<close>, and
  the whole sequence starts one transport receive, which the first call starts.
\<close>

theorem Read_partial_message_buffering:
  assumes live: "\<not> Done c (ctxRead c)" "\<not> Done c (ctx c)"
    and empty: "buf c = None"
    and msg: "m \<noteq> []" and B: "0 < B"
    and first: "recv e = Some (RecvOk m)" "during e = []"
    and bufs: "length p = B" "\<forall>(e', p') \<in> set rest. length p' = B"
    and count: "Suc (length rest) = (length m + B - 1) div B"
  shows "\<exists>rs c' r1 c1.
           Reads ((e, p) # rest) c = Some (rs, c')
         \<and> length rs = (length m + B - 1) div B
         \<and> (\<forall>i < length rs. delivered (rs ! i) = take B (drop (i * B) m)
                \<and> delivered (rs ! i) \<noteq> [] \<and> snd (snd (rs ! i)) = None)
         \<and> concat (map delivered rs) = m
         \<and> recvs c' = recvs c + 1
         \<and> Read e c p = Some (r1, c1) \<and> recvs c1 = recvs c + 1"
proof -
  let ?N = "(length m + B - 1) div B"
  let ?n = "min (length p) (length m)"
  define r1 where "r1 = (take ?n m @ drop ?n p, ?n, None :: go_error option)"
  let ?c1 = "c\<lparr>recvs := recvs c + 1, buf := Some (drop ?n m), offset := 0\<rparr>"
  have r1: "Read e c p = Some (r1, ?c1)"
    using Read_recv_ok[OF live empty first] by (simp only: r1_def)
  have d1: "delivered r1 = take B m" "snd (snd r1) = None"
    using bufs(1) by (simp_all add: r1_def min_def)
  have key: "\<exists>rs c'. Reads ((e, p) # rest) c = Some (rs, c')
        \<and> map delivered rs = map (\<lambda>i. take B (drop (i * B) m)) [0..<?N]
        \<and> (\<forall>r \<in> set rs. snd (snd r) = None) \<and> recvs c' = recvs c + 1"
  proof (cases "length m \<le> B")
    case True
    have "?N = 1" using ceil_one[OF True] msg by simp
    then have "rest = []" "[0..<?N] = [0]" using count by simp_all
    then show ?thesis using r1 d1 by simp
  next
    case False
    then have big: "B < length m" by simp
    have n: "?n = B" using big bufs(1) by simp
    have l1: "\<not> Done ?c1 (ctxRead ?c1)" "\<not> Done ?c1 (ctx ?c1)"
      using live by (simp_all add: Done_def)
    have b1: "buf ?c1 = Some (drop B m)" using n by simp
    have o1: "offset ?c1 < length (drop B m)" using big by simp
    have "Suc (length rest) = Suc ((length m - B + B - 1) div B)"
      using count ceil_step[OF big B] by simp
    then have len1: "length rest = (length (drop B m) - offset ?c1 + B - 1) div B"
      by simp
    from Reads_leftover[OF B l1 b1 o1 bufs(2) len1]
    obtain rs c' where ih: "Reads rest ?c1 = Some (rs, c')"
      "map delivered rs = map (\<lambda>i. take B (drop (offset ?c1 + i * B) (drop B m))) [0..<length rest]"
      "\<forall>r \<in> set rs. snd (snd r) = None" "recvs c' = recvs ?c1"
      by blast
    have shift: "map (\<lambda>i. take B (drop (i * B) m)) [0..<Suc (length rest)]
        = take B m # map (\<lambda>i. take B (drop (offset ?c1 + i * B) (drop B m))) [0..<length rest]"
      by (simp add: map_upt_Suc add.commute del: upt_Suc)
    show ?thesis
      using ih r1 d1 shift count[symmetric] by (simp del: upt_Suc)
  qed
  then obtain rs c' where rs: "Reads ((e, p) # rest) c = Some (rs, c')"
    "map delivered rs = map (\<lambda>i. take B (drop (i * B) m)) [0..<?N]"
    "\<forall>r \<in> set rs. snd (snd r) = None" "recvs c' = recvs c + 1"
    by blast
  have "length (map delivered rs) = length (map (\<lambda>i. take B (drop (i * B) m)) [0..<?N])"
    by (simp only: rs(2))
  then have len: "length rs = ?N" by simp
  have chunk: "delivered (rs ! i) = take B (drop (i * B) m)" if "i < length rs" for i
  proof -
    have "delivered (rs ! i) = map delivered rs ! i" using that by simp
    also have "\<dots> = take B (drop (i * B) m)" using that len by (simp only: rs(2)) simp
    finally show ?thesis .
  qed
  have nonempty: "delivered (rs ! i) \<noteq> []" if "i < length rs" for i
  proof -
    have "i * B < length m" using below_ceil[of i "length m" B] that len B by simp
    then show ?thesis using chunk[OF that] B by simp
  qed
  have noerr: "snd (snd (rs ! i)) = None" if "i < length rs" for i
    using rs(3) that by simp
  have "concat (map delivered rs) = take (?N * B) m"
    by (simp only: rs(2) concat_chunks)
  also have "\<dots> = m" using ceil_covers[OF B, of "length m"] msg by simp
  finally have whole: "concat (map delivered rs) = m" .
  have rc1: "recvs ?c1 = recvs c + 1" by simp
  have "Reads ((e, p) # rest) c = Some (rs, c')
         \<and> length rs = (length m + B - 1) div B
         \<and> (\<forall>i < length rs. delivered (rs ! i) = take B (drop (i * B) m)
                \<and> delivered (rs ! i) \<noteq> [] \<and> snd (snd (rs ! i)) = None)
         \<and> concat (map delivered rs) = m
         \<and> recvs c' = recvs c + 1
         \<and> Read e c p = Some (r1, ?c1) \<and> recvs ?c1 = recvs c + 1"
    using rs(1) len chunk nonempty noerr whole rs(4) r1 rc1 by (intro conjI allI impI)
  then show ?thesis by (intro exI)
qed

theorem Read_partial_message_buffering_witness:
  "\<exists>rs c'. Reads [(\<lparr>pick0 = 0, pick1 = 0, during = [], recv = Some (RecvOk [1, 2, 3, 4, 5]), junk = []\<rparr>, [0, 0]),
                    (\<lparr>pick0 = 0, pick1 = 0, during = [], recv = None, junk = []\<rparr>, [0, 0]),
                    (\<lparr>pick0 = 0, pick1 = 0, during = [], recv = None, junk = []\<rparr>, [0, 0])]
             NewServerConn = Some (rs, c')
         \<and> length rs = 3
         \<and> concat (map delivered rs) = [1, 2, 3, 4, 5]
         \<and> recvs c' = 1"
proof -
  let ?e = "\<lparr>pick0 = 0, pick1 = 0, during = [], recv = Some (RecvOk [1, 2, 3, 4, 5 :: byte]), junk = []\<rparr>"
  let ?e' = "\<lparr>pick0 = 0, pick1 = 0, during = [], recv = None, junk = [] :: byte list\<rparr>"
  have h1: "\<not> Done NewServerConn (ctxRead NewServerConn)"
    and h2: "\<not> Done NewServerConn (ctx NewServerConn)"
    and h3: "buf NewServerConn = None"
    by (simp_all add: NewServerConn_def Done_def)
  have h4: "[1, 2, 3, 4, 5 :: byte] \<noteq> []" and h5: "0 < (2 :: nat)" by simp_all
  have h6: "recv ?e = Some (RecvOk [1, 2, 3, 4, 5])" and h7: "during ?e = []" by simp_all
  have h8: "length [0, 0 :: byte] = 2"
    and h9: "\<forall>(e', p') \<in> set [(?e', [0, 0 :: byte]), (?e', [0, 0])]. length p' = 2"
    and h10: "Suc (length [(?e', [0, 0 :: byte]), (?e', [0, 0])]) = (length [1, 2, 3, 4, 5 :: byte] + 2 - 1) div 2"
    by simp_all
  from Read_partial_message_buffering [OF h1 h2 h3 h4 h5 h6 h7 h8 h9 h10]
  obtain rs c' where
    "Reads [(?e, [0, 0]), (?e', [0, 0]), (?e', [0, 0])] NewServerConn = Some (rs, c')"
    "length rs = (length [1, 2, 3, 4, 5 :: byte] + 2 - 1) div 2"
    "concat (map delivered rs) = [1, 2, 3, 4, 5]"
    "recvs c' = recvs NewServerConn + 1"
    by blast
  then show ?thesis by (simp add: NewServerConn_def)
qed

subsection \<open>Well-formedness is invariant\<close>

lemma wf_New: "wf_conn NewServerConn"
  by (simp add: wf_conn_def NewServerConn_def)

lemma wf_run_op: "wf_conn c \<Longrightarrow> wf_conn (run_op x c)"
  by (cases x)
     (auto simp: wf_conn_def Close_def SetDeadline_def SetReadDeadline_def SetWriteDeadline_def
        clock_def fire_read_def fire_write_def due_def trip_read_def trip_write_def cancel_ctx_def
        refresh_read_def refresh_write_def rearm_read_def rearm_write_def Let_def Done_def
        split: option.splits timer.splits bool.splits)

lemma wf_run_ops: "wf_conn c \<Longrightarrow> wf_conn (run_ops xs c)"
  by (induction xs arbitrary: c) (simp_all add: wf_run_op)

lemma wf_frame:
  "ctxRead c' = ctxRead c \<Longrightarrow> ctxWrite c' = ctxWrite c \<Longrightarrow> ctx c' = ctx c
   \<Longrightarrow> ctxs c' = ctxs c \<Longrightarrow> wf_conn c' = wf_conn c"
  by (simp add: wf_conn_def)

lemma wf_Read:
  assumes "wf_conn c" "Read e c p = Some (r, c')"
  shows "wf_conn c'"
proof (cases "Read_failfast (pick0 e) c")
  case (Some err)
  then show ?thesis using assms by (simp add: Read_def)
next
  case None
  show ?thesis
  proof (cases "buf c")
    case (Some b)
    then show ?thesis using assms None
      by (auto simp: Read_def Let_def wf_conn_def split: prod.splits if_splits)
  next
    case bn: None
    let ?c1 = "run_ops (during e) (c\<lparr>recvs := recvs c + 1\<rparr>)"
    have w1: "wf_conn ?c1" using assms(1) by (intro wf_run_ops) (simp add: wf_conn_def)
    have "Read_recv e c p = Some (r, c')" using assms None bn by (simp add: Read_def)
    then have "c' = ?c1 \<or> (\<exists>b. c' = ?c1\<lparr>buf := b, offset := 0\<rparr>)"
      by (auto simp: Read_recv_def Let_def split: option.splits race.splits recv_result.splits prod.splits)
    then show ?thesis using w1 by (auto simp: wf_conn_def)
  qed
qed

lemma wf_Write:
  assumes "wf_conn c" "Write w c p = Some (r, c')"
  shows "wf_conn c'"
proof (cases "Write_failfast (wpick0 w) c")
  case (Some err)
  then show ?thesis using assms by (simp add: Write_def)
next
  case None
  let ?c1 = "run_ops (wduring w) (c\<lparr>sends := sends c @ [p]\<rparr>)"
  have w1: "wf_conn ?c1" using assms(1) by (intro wf_run_ops) (simp add: wf_conn_def)
  have "c' = ?c1" using assms None
    by (auto simp: Write_def Let_def split: option.splits race.splits)
  then show ?thesis using w1 by simp
qed

subsection \<open>The leftover offset stays in range\<close>

lemma run_op_buf: "buf (run_op x c) = buf c \<and> offset (run_op x c) = offset c"
  by (cases x)
     (auto simp: Close_def SetDeadline_def SetReadDeadline_def SetWriteDeadline_def
        clock_def fire_read_def fire_write_def trip_read_def trip_write_def cancel_ctx_def
        refresh_read_def refresh_write_def rearm_read_def rearm_write_def Let_def
        split: option.splits timer.splits bool.splits)

lemma run_ops_buf: "buf (run_ops xs c) = buf c \<and> offset (run_ops xs c) = offset c"
  by (induction xs arbitrary: c) (simp_all add: run_op_buf)

lemma offset_ok_New: "offset_ok NewServerConn"
  by (simp add: offset_ok_def NewServerConn_def)

lemma offset_ok_run_ops: "offset_ok (run_ops xs c) = offset_ok c"
  by (simp add: offset_ok_def run_ops_buf split: option.splits)

lemma offset_ok_Read:
  assumes "offset_ok c" "Read e c p = Some (r, c')"
  shows "offset_ok c'"
proof (cases "Read_failfast (pick0 e) c")
  case (Some err)
  then show ?thesis using assms by (simp add: Read_def)
next
  case None
  show ?thesis
  proof (cases "buf c")
    case (Some b)
    then show ?thesis using assms None
      by (auto simp: Read_def Let_def offset_ok_def copy_go_def split: if_splits)
  next
    case bn: None
    let ?c1 = "run_ops (during e) (c\<lparr>recvs := recvs c + 1\<rparr>)"
    have "offset_ok (c\<lparr>recvs := recvs c + 1\<rparr>)" using bn by (simp add: offset_ok_def)
    then have o1: "offset_ok ?c1" by (simp only: offset_ok_run_ops)
    have "Read_recv e c p = Some (r, c')" using assms None bn by (simp add: Read_def)
    then have "c' = ?c1 \<or> (\<exists>b. c' = ?c1\<lparr>buf := b, offset := 0\<rparr>)"
      by (auto simp: Read_recv_def Let_def split: option.splits race.splits recv_result.splits prod.splits)
    then show ?thesis using o1 by (auto simp: offset_ok_def split: option.splits)
  qed
qed

subsection \<open>Status translation\<close>

lemma Write_failfast_live:
  "\<not> Done c (ctxWrite c) \<Longrightarrow> \<not> Done c (ctx c) \<Longrightarrow> Write_failfast k c = None"
  by (simp add: Write_failfast_def select_go_def)

lemma Read_recv_err:
  assumes "\<not> Done c (ctxRead c)" "\<not> Done c (ctx c)" "buf c = None"
    "recv e = Some (RecvErr err)" "during e = []"
  shows "Read e c p = Some ((p, 0, translate (Some err)), c\<lparr>recvs := recvs c + 1\<rparr>)"
  using assms
  by (simp add: Read_def failfast_live Read_recv_def select_go_def Done_recvs)

lemma Write_completed:
  assumes "\<not> Done c (ctxWrite c)" "\<not> Done c (ctx c)"
    "send w = Some r" "wduring w = []"
  shows "Write w c p = Some ((length p, translate r), c\<lparr>sends := sends c @ [p]\<rparr>)"
  using assms
  by (simp add: Write_def Write_failfast_live select_go_def Done_sends)

lemma select_go_SomeD:
  "select_go k cases = Some x \<Longrightarrow> (True, x) \<in> set cases"
proof -
  assume a: "select_go k cases = Some x"
  let ?ready = "map snd (filter fst cases)"
  have ne: "?ready \<noteq> []" using a by (auto simp: select_go_def Let_def split: if_splits)
  then have "x = ?ready ! (k mod length ?ready)"
    using a by (auto simp: select_go_def Let_def split: if_splits)
  moreover have "k mod length ?ready < length ?ready" using ne by simp
  ultimately have "x \<in> set ?ready" using nth_mem by metis
  then show ?thesis by auto
qed

lemma Read_error_cases:
  assumes "Read e c p = Some ((p', n, Some x), c')"
  shows "x = ErrDeadlineExceeded \<or> x = EOF
       \<or> (recv e = Some (RecvErr x) \<and> status_Code (Some x) \<noteq> Unavailable
            \<and> status_Code (Some x) \<noteq> OutOfRange)"
proof (cases "Read_failfast (pick0 e) c")
  case (Some err)
  then have "(True, err) \<in> set [(Done c (ctxRead c), ErrDeadlineExceeded), (Done c (ctx c), EOF)]"
    unfolding Read_failfast_def by (rule select_go_SomeD)
  moreover have "x = err" using assms Some by (simp add: Read_def)
  ultimately show ?thesis by auto
next
  case None
  show ?thesis
  proof (cases "buf c")
    case (Some b)
    then show ?thesis using assms None
      by (simp add: Read_def Let_def split: prod.splits)
  next
    case bn: None
    have rr: "Read_recv e c p = Some ((p', n, Some x), c')"
      using assms None bn by (simp add: Read_def)
    let ?c1 = "run_ops (during e) (c\<lparr>recvs := recvs c + 1\<rparr>)"
    let ?cases = "[(Done ?c1 (ctxRead c), ScopeDone), (Done ?c1 (ctx c), CloseDone)] @
                 (case recv e of None \<Rightarrow> [] | Some r \<Rightarrow> [(True, Completed r)])"
    obtain w where w: "select_go (pick1 e) ?cases = Some w"
      using rr by (cases "select_go (pick1 e) ?cases") (simp_all add: Read_recv_def Let_def)
    have mem: "(True, w) \<in> set ?cases" using w by (rule select_go_SomeD)
    show ?thesis
    proof (cases w)
      case ScopeDone
      then show ?thesis using rr w by (simp add: Read_recv_def Let_def)
    next
      case CloseDone
      then show ?thesis using rr w by (simp add: Read_recv_def Let_def)
    next
      case (Completed r)
      then have rv: "recv e = Some r" using mem by (auto split: option.splits)
      show ?thesis
      proof (cases r)
        case (RecvOk d)
        then show ?thesis using rr w Completed
          by (simp add: Read_recv_def Let_def split: prod.splits)
      next
        case (RecvErr err)
        then have "translate (Some err) = Some x" using rr w Completed
          by (simp add: Read_recv_def Let_def)
        then show ?thesis using rv RecvErr
          by (auto simp: translate_def split: if_splits)
      qed
    qed
  qed
qed

lemma Write_error_cases:
  assumes "Write w c p = Some ((n, Some x), c')"
  shows "x = ErrDeadlineExceeded \<or> x = EOF
       \<or> (send w = Some (Some x) \<and> status_Code (Some x) \<noteq> Unavailable
            \<and> status_Code (Some x) \<noteq> OutOfRange)"
proof (cases "Write_failfast (wpick0 w) c")
  case (Some err)
  then have "(True, err) \<in> set [(Done c (ctxWrite c), ErrDeadlineExceeded), (Done c (ctx c), EOF)]"
    unfolding Write_failfast_def by (rule select_go_SomeD)
  moreover have "x = err" using assms Some by (simp add: Write_def)
  ultimately show ?thesis by auto
next
  case None
  let ?c1 = "run_ops (wduring w) (c\<lparr>sends := sends c @ [p]\<rparr>)"
  let ?cases = "[(Done ?c1 (ctxWrite c), ScopeDone), (Done ?c1 (ctx c), CloseDone)] @
               (case send w of None \<Rightarrow> [] | Some r \<Rightarrow> [(True, Completed r)])"
  obtain v where v: "select_go (wpick1 w) ?cases = Some v"
    using assms None by (cases "select_go (wpick1 w) ?cases") (simp_all add: Write_def Let_def)
  have mem: "(True, v) \<in> set ?cases" using v by (rule select_go_SomeD)
  show ?thesis
  proof (cases v)
    case ScopeDone
    then show ?thesis using assms None v by (simp add: Write_def Let_def)
  next
    case CloseDone
    then show ?thesis using assms None v by (simp add: Write_def Let_def)
  next
    case (Completed r)
    then have sv: "send w = Some r" using mem by (auto split: option.splits)
    have "translate r = Some x" using assms None v Completed by (simp add: Write_def Let_def)
    then show ?thesis using sv by (auto simp: translate_def split: if_splits)
  qed
qed

text \<open>
  C8. When the transport call of a \<open>Read\<close> or \<open>Write\<close> fails with the error \<open>err\<close> and
  its completion is what the caller's \<open>select\<close> sees, the caller gets \<open>io.EOF\<close> if the
  status code of \<open>err\<close> is \<open>Unavailable\<close> or \<open>OutOfRange\<close>, and \<open>err\<close> itself
  otherwise. The status code is the one \<open>status.Code\<close> finds, in \<open>err\<close> or in an error
  that \<open>err\<close> wraps. In every call whatsoever, an error the caller gets is
  deadline-exceeded, \<open>io.EOF\<close>, or the transport's own error unchanged, and then its
  status code is neither \<open>Unavailable\<close> nor \<open>OutOfRange\<close>.
\<close>

theorem status_translation:
  "(\<not> Done c (ctxRead c) \<and> \<not> Done c (ctx c) \<and> buf c = None
      \<and> recv e = Some (RecvErr err) \<and> during e = []
    \<longrightarrow> Read e c p =
          Some ((p, 0, Some (if status_Code (Some err) = Unavailable \<or> status_Code (Some err) = OutOfRange
                             then EOF else err)),
                c\<lparr>recvs := recvs c + 1\<rparr>))
 \<and> (\<not> Done c (ctxWrite c) \<and> \<not> Done c (ctx c)
      \<and> send w = Some (Some err) \<and> wduring w = []
    \<longrightarrow> Write w c p =
          Some ((length p, Some (if status_Code (Some err) = Unavailable \<or> status_Code (Some err) = OutOfRange
                                 then EOF else err)),
                c\<lparr>sends := sends c @ [p]\<rparr>))
 \<and> (\<forall>p' n x c'. Read e c p = Some ((p', n, Some x), c') \<longrightarrow>
        x = ErrDeadlineExceeded \<or> x = EOF
        \<or> (recv e = Some (RecvErr x) \<and> status_Code (Some x) \<noteq> Unavailable
             \<and> status_Code (Some x) \<noteq> OutOfRange))
 \<and> (\<forall>n x c'. Write w c p = Some ((n, Some x), c') \<longrightarrow>
        x = ErrDeadlineExceeded \<or> x = EOF
        \<or> (send w = Some (Some x) \<and> status_Code (Some x) \<noteq> Unavailable
             \<and> status_Code (Some x) \<noteq> OutOfRange))"
proof (intro conjI impI allI)
  assume a: "\<not> Done c (ctxRead c) \<and> \<not> Done c (ctx c) \<and> buf c = None
      \<and> recv e = Some (RecvErr err) \<and> during e = []"
  then show "Read e c p =
          Some ((p, 0, Some (if status_Code (Some err) = Unavailable \<or> status_Code (Some err) = OutOfRange
                             then EOF else err)),
                c\<lparr>recvs := recvs c + 1\<rparr>)"
    using Read_recv_err[of c e err p] by (simp add: translate_def)
next
  assume a: "\<not> Done c (ctxWrite c) \<and> \<not> Done c (ctx c)
      \<and> send w = Some (Some err) \<and> wduring w = []"
  then show "Write w c p =
          Some ((length p, Some (if status_Code (Some err) = Unavailable \<or> status_Code (Some err) = OutOfRange
                                 then EOF else err)),
                c\<lparr>sends := sends c @ [p]\<rparr>)"
    using Write_completed[of c w "Some err" p] by (simp add: translate_def)
next
  fix p' n x c'
  assume "Read e c p = Some ((p', n, Some x), c')"
  then show "x = ErrDeadlineExceeded \<or> x = EOF
        \<or> (recv e = Some (RecvErr x) \<and> status_Code (Some x) \<noteq> Unavailable
             \<and> status_Code (Some x) \<noteq> OutOfRange)"
    by (rule Read_error_cases)
next
  fix n x c'
  assume "Write w c p = Some ((n, Some x), c')"
  then show "x = ErrDeadlineExceeded \<or> x = EOF
        \<or> (send w = Some (Some x) \<and> status_Code (Some x) \<noteq> Unavailable
             \<and> status_Code (Some x) \<noteq> OutOfRange)"
    by (rule Write_error_cases)
qed

theorem status_translation_witness:
  "Read \<lparr>pick0 = 0, pick1 = 0, during = [], recv = Some (RecvErr (StatusError Unavailable ''gone'')), junk = []\<rparr>
        NewServerConn [0, 0]
     = Some (([0, 0], 0, Some EOF), NewServerConn\<lparr>recvs := 1\<rparr>)
 \<and> Write \<lparr>wpick0 = 0, wpick1 = 0, wduring = [], send = Some (Some (StatusError Unavailable ''gone''))\<rparr>
        NewServerConn [7]
     = Some ((1, Some EOF), NewServerConn\<lparr>sends := [[7]]\<rparr>)
 \<and> Read \<lparr>pick0 = 0, pick1 = 0, during = [],
           recv = Some (RecvErr (Wrapped ''recv'' (StatusError OutOfRange ''end''))), junk = []\<rparr>
        NewServerConn [0, 0]
     = Some (([0, 0], 0, Some EOF), NewServerConn\<lparr>recvs := 1\<rparr>)
 \<and> Write \<lparr>wpick0 = 0, wpick1 = 0, wduring = [], send = Some (Some (StatusError Internal ''boom''))\<rparr>
        NewServerConn [7]
     = Some ((1, Some (StatusError Internal ''boom'')), NewServerConn\<lparr>sends := [[7]]\<rparr>)"
  using status_translation [of NewServerConn
      "\<lparr>pick0 = 0, pick1 = 0, during = [], recv = Some (RecvErr (StatusError Unavailable ''gone'')), junk = []\<rparr>"
      "StatusError Unavailable ''gone''" "[0, 0]"
      "\<lparr>wpick0 = 0, wpick1 = 0, wduring = [], send = Some (Some (StatusError Unavailable ''gone''))\<rparr>"]
    status_translation [of NewServerConn
      "\<lparr>pick0 = 0, pick1 = 0, during = [], recv = Some (RecvErr (StatusError Unavailable ''gone'')), junk = []\<rparr>"
      "StatusError Unavailable ''gone''" "[7]"
      "\<lparr>wpick0 = 0, wpick1 = 0, wduring = [], send = Some (Some (StatusError Unavailable ''gone''))\<rparr>"]
    status_translation [of NewServerConn
      "\<lparr>pick0 = 0, pick1 = 0, during = [],
         recv = Some (RecvErr (Wrapped ''recv'' (StatusError OutOfRange ''end''))), junk = []\<rparr>"
      "Wrapped ''recv'' (StatusError OutOfRange ''end'')" "[0, 0]"
      "\<lparr>wpick0 = 0, wpick1 = 0, wduring = [], send = None\<rparr>"]
    status_translation [of NewServerConn
      "\<lparr>pick0 = 0, pick1 = 0, during = [], recv = None, junk = []\<rparr>"
      "StatusError Internal ''boom''" "[7]"
      "\<lparr>wpick0 = 0, wpick1 = 0, wduring = [], send = Some (Some (StatusError Internal ''boom''))\<rparr>"]
  by (simp add: NewServerConn_def Done_def)

subsection \<open>The count Write returns with an error\<close>

text \<open>
  C1. \<open>Write\<close> of the three bytes 1, 2, 3 on a new connection, where \<open>tun.Send\<close> fails
  with a status error of code \<open>Internal\<close>: the call returns the count 3, the full length
  of the buffer, together with that error.
\<close>

theorem Write_error_full_length:
  "Write \<lparr>wpick0 = 0, wpick1 = 0, wduring = [], send = Some (Some (StatusError Internal ''boom''))\<rparr>
         NewServerConn [1, 2, 3]
   = Some ((3, Some (StatusError Internal ''boom'')), NewServerConn\<lparr>sends := [[1, 2, 3]]\<rparr>)"
  by (simp add: Write_def Write_failfast_def select_go_def Done_def NewServerConn_def translate_def)

subsection \<open>A message that fits the caller's buffer\<close>

text \<open>
  C6. \<open>Read\<close> with a two-byte buffer on a new connection receives the two-byte message
  1, 2 and delivers it whole; the connection keeps an empty, non-nil leftover buffer.
  The next \<open>Read\<close>, although a message 3, 4 is ready on the transport, returns 0 bytes
  and no error from that empty leftover and starts no transport receive (\<open>recvs\<close> stays 1).
\<close>

theorem Read_empty_leftover:
  "Read \<lparr>pick0 = 0, pick1 = 0, during = [], recv = Some (RecvOk [1, 2]), junk = []\<rparr> NewServerConn [0, 0]
     = Some (([1, 2], 2, None), NewServerConn\<lparr>buf := Some [], recvs := 1\<rparr>)
 \<and> Read \<lparr>pick0 = 0, pick1 = 0, during = [], recv = Some (RecvOk [3, 4]), junk = []\<rparr>
        (NewServerConn\<lparr>buf := Some [], recvs := 1\<rparr>) [0, 0]
     = Some (([0, 0], 0, None), NewServerConn\<lparr>recvs := 1\<rparr>)"
  by (simp add: Read_def Read_recv_def Read_failfast_def select_go_def Done_def NewServerConn_def
      copy_go_def pool_Get_def)

subsection \<open>Deadlines\<close>

lemma Done_cancel_same: "x < length (ctxs c) \<Longrightarrow> Done (cancel_ctx x c) x"
  by (simp add: Done_def cancel_ctx_def)

lemma Done_cancel_other: "x \<noteq> y \<Longrightarrow> Done (cancel_ctx x c) y = Done c y"
  by (simp add: Done_def cancel_ctx_def)

lemma Read_deadline_exceeded:
  assumes "Done c (ctxRead c)" "\<not> Done c (ctx c)"
  shows "Read e c p = Some ((p, 0, Some ErrDeadlineExceeded), c)"
  using assms by (simp add: Read_def Read_failfast_def select_go_def)

lemma Write_deadline_exceeded:
  assumes "Done c (ctxWrite c)" "\<not> Done c (ctx c)"
  shows "Write w c p = Some ((0, Some ErrDeadlineExceeded), c)"
  using assms by (simp add: Write_def Write_failfast_def select_go_def)

text \<open>
  C2 (as amended). On a well-formed connection whose three scopes are live, at any clock
  reading not before the zero time, \<open>SetReadDeadline\<close>, \<open>SetWriteDeadline\<close> and
  \<open>SetDeadline\<close> with the zero time value take the branch for a time that is not in the
  future: the call only cancels the corresponding scope (both for \<open>SetDeadline\<close>), arms
  no timer and leaves the timer fields as they were, and a subsequent \<open>Read\<close>
  (\<open>Write\<close>) returns 0 and deadline-exceeded.
\<close>

theorem zero_deadline_trips:
  assumes wf: "wf_conn c"
    and live: "\<not> Done c (ctxRead c)" "\<not> Done c (ctxWrite c)" "\<not> Done c (ctx c)"
    and now: "zero_time \<le> now"
  shows "cancel_ctx (ctxRead c) c = SetReadDeadline c zero_time now
       \<and> readDeadline (SetReadDeadline c zero_time now) = readDeadline c
       \<and> Done (SetReadDeadline c zero_time now) (ctxRead c)
       \<and> Read e (SetReadDeadline c zero_time now) p
           = Some ((p, 0, Some ErrDeadlineExceeded), SetReadDeadline c zero_time now)
       \<and> cancel_ctx (ctxWrite c) c = SetWriteDeadline c zero_time now
       \<and> writeDeadline (SetWriteDeadline c zero_time now) = writeDeadline c
       \<and> Done (SetWriteDeadline c zero_time now) (ctxWrite c)
       \<and> Write w (SetWriteDeadline c zero_time now) p
           = Some ((0, Some ErrDeadlineExceeded), SetWriteDeadline c zero_time now)
       \<and> cancel_ctx (ctxWrite c) (cancel_ctx (ctxRead c) c) = SetDeadline c zero_time now
       \<and> readDeadline (SetDeadline c zero_time now) = readDeadline c
       \<and> writeDeadline (SetDeadline c zero_time now) = writeDeadline c
       \<and> Read e (SetDeadline c zero_time now) p
           = Some ((p, 0, Some ErrDeadlineExceeded), SetDeadline c zero_time now)
       \<and> Write w (SetDeadline c zero_time now) p
           = Some ((0, Some ErrDeadlineExceeded), SetDeadline c zero_time now)"
proof -
  have na: "\<not> time_After zero_time now" using now by (simp add: time_After_def)
  have r: "SetReadDeadline c zero_time now = cancel_ctx (ctxRead c) c"
    using na live by (simp add: SetReadDeadline_def trip_read_def)
  have w: "SetWriteDeadline c zero_time now = cancel_ctx (ctxWrite c) c"
    using na live by (simp add: SetWriteDeadline_def trip_write_def)
  have fr: "ctxRead (cancel_ctx x c) = ctxRead c" "ctxWrite (cancel_ctx x c) = ctxWrite c"
    "ctx (cancel_ctx x c) = ctx c" "readDeadline (cancel_ctx x c) = readDeadline c"
    "writeDeadline (cancel_ctx x c) = writeDeadline c" "length (ctxs (cancel_ctx x c)) = length (ctxs c)"
    for x c by (simp_all add: cancel_ctx_def)
  have rw: "\<not> Done (cancel_ctx (ctxRead c) c) (ctxWrite c)"
    using wf live by (simp add: Done_cancel_other wf_conn_def)
  have b: "SetDeadline c zero_time now = cancel_ctx (ctxWrite c) (cancel_ctx (ctxRead c) c)"
    using na live rw by (simp add: SetDeadline_def trip_read_def trip_write_def fr)
  have dr: "Done (cancel_ctx (ctxRead c) c) (ctxRead c)"
    using wf by (simp add: Done_cancel_same wf_conn_def)
  have dw: "Done (cancel_ctx (ctxWrite c) c) (ctxWrite c)"
    using wf by (simp add: Done_cancel_same wf_conn_def)
  have cr: "\<not> Done (cancel_ctx (ctxRead c) c) (ctx c)"
    using wf live by (simp add: Done_cancel_other wf_conn_def)
  have cw: "\<not> Done (cancel_ctx (ctxWrite c) c) (ctx c)"
    using wf live by (simp add: Done_cancel_other wf_conn_def)
  let ?b = "cancel_ctx (ctxWrite c) (cancel_ctx (ctxRead c) c)"
  have br: "Done ?b (ctxRead c)"
    using wf dr by (simp add: Done_cancel_other wf_conn_def)
  have bw: "Done ?b (ctxWrite c)"
    using wf by (simp add: Done_cancel_same wf_conn_def fr)
  have bc: "\<not> Done ?b (ctx c)"
    using wf cr by (simp add: Done_cancel_other wf_conn_def)
  have R1: "Read e (cancel_ctx (ctxRead c) c) p = Some ((p, 0, Some ErrDeadlineExceeded), cancel_ctx (ctxRead c) c)"
    using dr cr by (intro Read_deadline_exceeded) (simp_all add: fr)
  have W1: "Write w (cancel_ctx (ctxWrite c) c) p = Some ((0, Some ErrDeadlineExceeded), cancel_ctx (ctxWrite c) c)"
    using dw cw by (intro Write_deadline_exceeded) (simp_all add: fr)
  have R2: "Read e ?b p = Some ((p, 0, Some ErrDeadlineExceeded), ?b)"
    using br bc by (intro Read_deadline_exceeded) (simp_all add: fr)
  have W2: "Write w ?b p = Some ((0, Some ErrDeadlineExceeded), ?b)"
    using bw bc by (intro Write_deadline_exceeded) (simp_all add: fr)
  show ?thesis
    unfolding r w b using dr dw R1 W1 R2 W2 by (simp add: fr)
qed

theorem zero_deadline_trips_witness:
  "Read \<lparr>pick0 = 0, pick1 = 0, during = [], recv = Some (RecvOk [1]), junk = []\<rparr>
        (SetReadDeadline NewServerConn zero_time 63900000000000000000) [0]
     = Some (([0], 0, Some ErrDeadlineExceeded), SetReadDeadline NewServerConn zero_time 63900000000000000000)
   \<and> readDeadline (SetReadDeadline NewServerConn zero_time 63900000000000000000) = None"
proof -
  have h: "wf_conn NewServerConn" "\<not> Done NewServerConn (ctxRead NewServerConn)"
    "\<not> Done NewServerConn (ctxWrite NewServerConn)" "\<not> Done NewServerConn (ctx NewServerConn)"
    "zero_time \<le> 63900000000000000000"
    by (simp_all add: wf_conn_def NewServerConn_def Done_def zero_time_def)
  have "readDeadline NewServerConn = None" by (simp add: NewServerConn_def)
  then show ?thesis
    using zero_deadline_trips [OF h, where e = "\<lparr>pick0 = 0, pick1 = 0, during = [], recv = Some (RecvOk [1]), junk = []\<rparr>"
        and p = "[0]" and w = "\<lparr>wpick0 = 0, wpick1 = 0, wduring = [], send = None\<rparr>"]
    by simp
qed

theorem zero_deadline_counterexample:
  "Done (SetReadDeadline NewServerConn zero_time 63900000000000000000) (ctxRead (SetReadDeadline NewServerConn zero_time 63900000000000000000))
   \<and> Read \<lparr>pick0 = 0, pick1 = 0, during = [], recv = Some (RecvOk [1]), junk = []\<rparr>
        (SetReadDeadline NewServerConn zero_time 63900000000000000000) [0]
     = Some (([0], 0, Some ErrDeadlineExceeded), SetReadDeadline NewServerConn zero_time 63900000000000000000)
   \<and> Done (SetWriteDeadline NewServerConn zero_time 63900000000000000000) (ctxWrite (SetWriteDeadline NewServerConn zero_time 63900000000000000000))
   \<and> Write \<lparr>wpick0 = 0, wpick1 = 0, wduring = [], send = Some None\<rparr>
        (SetWriteDeadline NewServerConn zero_time 63900000000000000000) [1]
     = Some ((0, Some ErrDeadlineExceeded), SetWriteDeadline NewServerConn zero_time 63900000000000000000)"
  by (simp add: SetReadDeadline_def SetWriteDeadline_def time_After_def zero_time_def trip_read_def
      trip_write_def cancel_ctx_def Done_def NewServerConn_def Read_def Read_failfast_def
      Write_def Write_failfast_def select_go_def)

subsection \<open>Deadline refresh\<close>

lemma Done_append: "x < length (ctxs c) \<Longrightarrow> Done (c\<lparr>ctxs := ctxs c @ [False]\<rparr>) x = Done c x"
  by (simp add: Done_def nth_append)

text \<open>
  C4. On a well-formed connection whose read scope has tripped, \<open>SetReadDeadline\<close> with
  a time after \<open>now\<close> first replaces the read scope by a context that did not exist
  before and is live, then arms the timer; the old context stays cancelled. The first
  \<open>select\<close> of a subsequent \<open>Read\<close> never answers deadline-exceeded; when the close
  scope is live it takes its \<open>default\<close> branch, and the \<open>Read\<close> goes on: with no
  leftover and a message \<open>m\<close> received it delivers the bytes of \<open>m\<close> that fit.
\<close>

theorem deadline_refresh:
  assumes wf: "wf_conn c"
    and tripped: "Done c (ctxRead c)"
    and future: "time_After t now"
  shows "rearm_read (time_Sub t now) now (refresh_read c) = SetReadDeadline c t now
       \<and> ctxRead (refresh_read c) = length (ctxs c)
       \<and> ctxRead (SetReadDeadline c t now) = length (ctxs c)
       \<and> \<not> Done (SetReadDeadline c t now) (ctxRead (SetReadDeadline c t now))
       \<and> Done (SetReadDeadline c t now) (ctxRead c)
       \<and> readDeadline (SetReadDeadline c t now) = Some (Timer (now + time_Sub t now) True)
       \<and> Read_failfast k (SetReadDeadline c t now) \<noteq> Some ErrDeadlineExceeded
       \<and> (\<not> Done c (ctx c) \<longrightarrow> Read_failfast k (SetReadDeadline c t now) = None)
       \<and> (\<not> Done c (ctx c) \<and> buf c = None \<and> recv e = Some (RecvOk m) \<and> during e = []
            \<longrightarrow> Read e (SetReadDeadline c t now) p =
                Some ((take (min (length p) (length m)) m @ drop (min (length p) (length m)) p,
                       min (length p) (length m), None),
                      (SetReadDeadline c t now)
                        \<lparr>recvs := recvs c + 1, buf := Some (drop (min (length p) (length m)) m), offset := 0\<rparr>))"
proof -
  let ?c' = "SetReadDeadline c t now"
  let ?f = "c\<lparr>ctxRead := length (ctxs c), ctxs := ctxs c @ [False]\<rparr>"
  have rf: "refresh_read c = ?f" using tripped by (simp add: refresh_read_def)
  have s: "?c' = rearm_read (time_Sub t now) now (refresh_read c)"
    using future by (simp add: SetReadDeadline_def)
  have c': "?c' = ?f\<lparr>readDeadline := Some (Timer (now + time_Sub t now) True)\<rparr>"
    unfolding s rf by (simp add: rearm_read_def Let_def)
  have fresh: "ctxRead ?c' = length (ctxs c)" unfolding c' by simp
  have live: "\<not> Done ?c' (ctxRead ?c')" unfolding c' by (simp add: Done_def)
  have old: "Done ?c' (ctxRead c)"
    using tripped unfolding c' by (simp add: Done_def nth_append)
  have tm: "readDeadline ?c' = Some (Timer (now + time_Sub t now) True)" unfolding c' by simp
  have cl: "Done ?c' (ctx ?c') = Done c (ctx c)"
    using wf unfolding c' by (simp add: Done_def nth_append wf_conn_def)
  have ff: "Read_failfast k ?c' = (if Done c (ctx c) then Some EOF else None)"
    using live cl by (simp add: Read_failfast_def select_go_def)
  have bf: "buf ?c' = buf c" "recvs ?c' = recvs c" unfolding c' by simp_all
  have rd: "Read e ?c' p =
                Some ((take (min (length p) (length m)) m @ drop (min (length p) (length m)) p,
                       min (length p) (length m), None),
                      ?c'\<lparr>recvs := recvs c + 1, buf := Some (drop (min (length p) (length m)) m), offset := 0\<rparr>)"
    if "\<not> Done c (ctx c) \<and> buf c = None \<and> recv e = Some (RecvOk m) \<and> during e = []"
    using Read_recv_ok[of ?c' e m p] live cl that bf by simp
  show ?thesis
    using s rf fresh live old tm ff rd by simp
qed

theorem deadline_refresh_witness:
  "Done (SetReadDeadline NewServerConn 5 10) (ctxRead NewServerConn)
   \<and> ctxRead (SetReadDeadline (SetReadDeadline NewServerConn 5 10) 30 20) = 3
   \<and> \<not> Done (SetReadDeadline (SetReadDeadline NewServerConn 5 10) 30 20) 3
   \<and> Read \<lparr>pick0 = 0, pick1 = 0, during = [], recv = Some (RecvOk [1, 2]), junk = []\<rparr>
        (SetReadDeadline (SetReadDeadline NewServerConn 5 10) 30 20) [0, 0]
      = Some (([1, 2], 2, None),
              (SetReadDeadline (SetReadDeadline NewServerConn 5 10) 30 20)\<lparr>recvs := 1, buf := Some [], offset := 0\<rparr>)"
proof -
  let ?c = "SetReadDeadline NewServerConn 5 10"
  have c: "?c = NewServerConn\<lparr>ctxs := [False, True, False]\<rparr>"
    by (simp add: SetReadDeadline_def time_After_def trip_read_def cancel_ctx_def Done_def NewServerConn_def)
  have h: "wf_conn ?c" "Done ?c (ctxRead ?c)" "time_After 30 20"
    unfolding c by (simp_all add: wf_conn_def Done_def NewServerConn_def time_After_def)
  have g: "\<not> Done ?c (ctx ?c)" "buf ?c = None" "recvs ?c = 0" "length (ctxs ?c) = 3"
    "ctxRead ?c = ctxRead NewServerConn"
    unfolding c by (simp_all add: Done_def NewServerConn_def)
  show ?thesis
    using deadline_refresh [OF h, where k = 0 and p = "[0, 0]" and m = "[1, 2]"
        and e = "\<lparr>pick0 = 0, pick1 = 0, during = [], recv = Some (RecvOk [1, 2]), junk = []\<rparr>"] g h(2)
    by (elim conjE) simp
qed

section \<open>Properties of the hysteria2 client\<close>

subsection \<open>Congestion control selection\<close>

lemma actualTx_spec:
  fixes rx tx :: "64 word"
  shows "(if rx = 0 \<or> rx > tx then tx else rx) = effective_rate_spec rx tx"
  by (auto simp: effective_rate_spec_def not_less)

lemma connect_ok:
  "connect ok config (auth_ok ok d authResp) =
     (Inr \<lparr>UDPEnabled = auth_UDPEnabled authResp,
           Tx = snd (congestion_spec (auth_RxAuto authResp) (auth_Rx authResp) (MaxTx config))\<rparr>,
      new_clientImpl\<lparr>cc := Some (fst (congestion_spec (auth_RxAuto authResp) (auth_Rx authResp) (MaxTx config))),
                     udpSM := auth_UDPEnabled authResp\<rparr>)"
  by (simp add: connect_def auth_ok_def congestion_spec_def actualTx_spec Let_def word_greater_zero_iff)

text \<open>
  C3. After a successful handshake \<open>connect\<close> installs the congestion control and
  reports the \<open>Tx\<close> that the decision table of the spec gives for the server's
  rate-adaptive flag, the server's receive ceiling and the client's \<open>MaxTx\<close>. The four
  rows of the table: (false, 0, 5000) gives Brutal at 5000, (false, 3000, 5000) gives
  Brutal at 3000, (true, any) gives BBR with \<open>Tx = 0\<close>, (false, 0, 0) gives BBR with
  \<open>Tx = 0\<close>.
\<close>

theorem congestion_selection:
  "connect ok config (auth_ok ok d authResp) =
     (Inr \<lparr>UDPEnabled = auth_UDPEnabled authResp,
           Tx = snd (congestion_spec (auth_RxAuto authResp) (auth_Rx authResp) (MaxTx config))\<rparr>,
      new_clientImpl\<lparr>cc := Some (fst (congestion_spec (auth_RxAuto authResp) (auth_Rx authResp) (MaxTx config))),
                     udpSM := auth_UDPEnabled authResp\<rparr>)
   \<and> connect ok (config\<lparr>MaxTx := 5000\<rparr>) (auth_ok ok d \<lparr>auth_UDPEnabled = u, auth_Rx = 0, auth_RxAuto = False\<rparr>)
       = (Inr \<lparr>UDPEnabled = u, Tx = 5000\<rparr>, new_clientImpl\<lparr>cc := Some (Brutal 5000), udpSM := u\<rparr>)
   \<and> connect ok (config\<lparr>MaxTx := 5000\<rparr>) (auth_ok ok d \<lparr>auth_UDPEnabled = u, auth_Rx = 3000, auth_RxAuto = False\<rparr>)
       = (Inr \<lparr>UDPEnabled = u, Tx = 3000\<rparr>, new_clientImpl\<lparr>cc := Some (Brutal 3000), udpSM := u\<rparr>)
   \<and> connect ok config (auth_ok ok d \<lparr>auth_UDPEnabled = u, auth_Rx = rx, auth_RxAuto = True\<rparr>)
       = (Inr \<lparr>UDPEnabled = u, Tx = 0\<rparr>, new_clientImpl\<lparr>cc := Some BBR, udpSM := u\<rparr>)
   \<and> connect ok (config\<lparr>MaxTx := 0\<rparr>) (auth_ok ok d \<lparr>auth_UDPEnabled = u, auth_Rx = 0, auth_RxAuto = False\<rparr>)
       = (Inr \<lparr>UDPEnabled = u, Tx = 0\<rparr>, new_clientImpl\<lparr>cc := Some BBR, udpSM := u\<rparr>)"
  by (simp add: connect_ok congestion_spec_def effective_rate_spec_def)

subsection \<open>Fast-open and the server's rejection\<close>

text \<open>
  C7. The server rejects the request with the message \<open>msg\<close>. With fast-open, \<open>TCP\<close>
  returns a connection that is not yet established, without error, and the first \<open>Read\<close>
  on it returns 0 and a dial error whose message contains \<open>msg\<close>. Without fast-open,
  \<open>TCP\<close> itself returns a dial error whose message contains \<open>msg\<close>.
\<close>

theorem fast_open_deferred_validation:
  "TCP (config\<lparr>FastOpen := True\<rparr>) (rejected msg) addr
     = (Inr \<lparr>Orig = \<lparr>request = Some addr, closed = False, reply = (False, msg, None)\<rparr>, Established = False\<rparr>,
        Some \<lparr>request = Some addr, closed = False, reply = (False, msg, None)\<rparr>)
   \<and> fst (tcpConn_Read orig_Read
         \<lparr>Orig = \<lparr>request = Some addr, closed = False, reply = (False, msg, None)\<rparr>, Established = False\<rparr> b)
     = (b, 0, Some (DialError msg))
   \<and> sublist msg msg
   \<and> fst (TCP (config\<lparr>FastOpen := False\<rparr>) (rejected msg) addr) = Inl (DialError (''from remote: '' @ msg))
   \<and> sublist msg (''from remote: '' @ msg)"
proof -
  have "sublist msg (''from remote: '' @ msg)" by (rule sublist_append_leftI)
  then show ?thesis
    by (simp add: TCP_def rejected_def tcpConn_Read_def ReadTCPResponse_def QStream_Close_def Let_def)
qed

text \<open>
  C10. At the first \<open>Read\<close> of a fast-open connection the server's rejection becomes a
  dial error whose message is \<open>msg\<close> itself, which is not the message
  \<open>''from remote: '' @ msg\<close> of the synchronous path, and the stream is left as it was,
  not closed. Without fast-open, \<open>TCP\<close> returns the dial error with the prefixed message
  and has closed the stream.
\<close>

theorem fast_open_rejection_message_and_close:
  "tcpConn_Read orig_Read
       \<lparr>Orig = \<lparr>request = Some addr, closed = False, reply = (False, msg, None)\<rparr>, Established = False\<rparr> b
     = ((b, 0, Some (DialError msg)),
        \<lparr>Orig = \<lparr>request = Some addr, closed = False, reply = (False, msg, None)\<rparr>, Established = False\<rparr>)
   \<and> DialError msg \<noteq> DialError (''from remote: '' @ msg)
   \<and> TCP (config\<lparr>FastOpen := False\<rparr>) (rejected msg) addr
     = (Inl (DialError (''from remote: '' @ msg)),
        Some \<lparr>request = Some addr, closed = True, reply = (False, msg, None)\<rparr>)"
  by (simp add: TCP_def rejected_def tcpConn_Read_def ReadTCPResponse_def QStream_Close_def Let_def)

subsection \<open>The datagram receive loop\<close>

lemma ReceiveMessage_skip:
  "list_all (malformed parse) bad \<Longrightarrow>
   ReceiveMessage parse (map Datagram bad @ rest) = ReceiveMessage parse rest"
  by (induction bad) (auto simp: malformed_def split: sum.splits)

lemma ReceiveMessage_result:
  "ReceiveMessage parse ds = Some (r, rest) \<Longrightarrow>
   \<exists>bad. list_all (malformed parse) bad \<and>
     ((\<exists>err. r = Inl err \<and> ds = map Datagram bad @ ConnErr err # rest)
      \<or> (\<exists>good m. r = Inr m \<and> parse good = Inr m \<and> ds = map Datagram bad @ Datagram good # rest))"
proof (induction parse ds rule: ReceiveMessage.induct)
  case (1 parse)
  then show ?case by simp
next
  case (2 parse err rest')
  then show ?case by (intro exI[of _ "[]"]) auto
next
  case (3 parse msg rest')
  show ?case
  proof (cases "parse msg")
    case (Inl e)
    then have "ReceiveMessage parse rest' = Some (r, rest)" using 3(2) by simp
    from 3(1)[OF Inl this] obtain bad where
      b: "list_all (malformed parse) bad"
        "(\<exists>err. r = Inl err \<and> rest' = map Datagram bad @ ConnErr err # rest)
         \<or> (\<exists>good m. r = Inr m \<and> parse good = Inr m \<and> rest' = map Datagram bad @ Datagram good # rest)"
      by blast
    have "list_all (malformed parse) (msg # bad)" using b(1) Inl by (simp add: malformed_def)
    moreover have "(\<exists>err. r = Inl err \<and> Datagram msg # rest' = map Datagram (msg # bad) @ ConnErr err # rest)
         \<or> (\<exists>good m. r = Inr m \<and> parse good = Inr m \<and> Datagram msg # rest' = map Datagram (msg # bad) @ Datagram good # rest)"
      using b(2) by auto
    ultimately show ?thesis by blast
  next
    case (Inr m)
    then have "r = Inr m" "rest = rest'" using 3(2) by simp_all
    then show ?thesis using Inr by (intro exI[of _ "[]"]) auto
  qed
qed

text \<open>
  C9. After any number of malformed datagrams, \<open>ReceiveMessage\<close> returns the next
  well-formed message, or returns the connection's error if that comes first, and in
  both cases it has consumed exactly the datagrams up to there. When only malformed
  datagrams arrive it keeps waiting. An error it returns is always an error of the
  connection, reached after malformed datagrams only: no malformed datagram produces one.
\<close>

theorem datagram_resilience:
  "(list_all (malformed parse) bad \<and> parse good = Inr m \<longrightarrow>
      ReceiveMessage parse (map Datagram bad @ Datagram good # rest) = Some (Inr m, rest))
 \<and> (list_all (malformed parse) bad \<longrightarrow>
      ReceiveMessage parse (map Datagram bad @ ConnErr err # rest) = Some (Inl err, rest))
 \<and> (list_all (malformed parse) bad \<longrightarrow> ReceiveMessage parse (map Datagram bad) = None)
 \<and> (\<forall>e rest'. ReceiveMessage parse ds = Some (Inl e, rest') \<longrightarrow>
      (\<exists>bad'. list_all (malformed parse) bad' \<and> ds = map Datagram bad' @ ConnErr e # rest'))"
proof (intro conjI impI allI)
  assume "list_all (malformed parse) bad \<and> parse good = Inr m"
  then show "ReceiveMessage parse (map Datagram bad @ Datagram good # rest) = Some (Inr m, rest)"
    by (simp add: ReceiveMessage_skip)
next
  assume "list_all (malformed parse) bad"
  then show "ReceiveMessage parse (map Datagram bad @ ConnErr err # rest) = Some (Inl err, rest)"
    by (simp add: ReceiveMessage_skip)
next
  assume "list_all (malformed parse) bad"
  then show "ReceiveMessage parse (map Datagram bad) = None"
    using ReceiveMessage_skip[of parse bad "[]"] by simp
next
  fix e rest'
  assume "ReceiveMessage parse ds = Some (Inl e, rest')"
  from ReceiveMessage_result[OF this]
  show "\<exists>bad'. list_all (malformed parse) bad' \<and> ds = map Datagram bad' @ ConnErr e # rest'"
    by auto
qed

theorem datagram_resilience_witness:
  "ReceiveMessage (\<lambda>d. if d = [] then Inl (OtherError ''short'') else Inr (length d))
      [Datagram [], Datagram [], Datagram [1, 2], Datagram [3]]
     = Some (Inr 2, [Datagram [3]])
 \<and> ReceiveMessage (\<lambda>d. if d = [] then Inl (OtherError ''short'') else Inr (length d))
      [Datagram [], ConnErr (OtherError ''closed''), Datagram [3]]
     = Some (Inl (OtherError ''closed''), [Datagram [3]])"
  using datagram_resilience [of "\<lambda>d. if d = [] then Inl (OtherError ''short'') else Inr (length d)"
      "[[], []]" "[1, 2]" 2 "[Datagram [3]]"]
    datagram_resilience [of "\<lambda>d. if d = [] then Inl (OtherError ''short'') else Inr (length d)"
      "[[]]" "[1, 2]" 2 "[Datagram [3]]" "OtherError ''closed''"]
  by (simp add: malformed_def)

end
